theory Spec2Isabelle
  imports
    Main
    "HOL-Library.Char_ord"
    "HOL-Library.List_Lexorder"
    "HOL-Library.Product_Lexorder"
    "HOL-Library.AList"
    "HOL-Library.Multiset"
    "HOL-Library.Sublist"
begin

section \<open>Strings\<close>

text \<open>
  A Python \<^verbatim>\<open>str\<close> is a sequence of code points. Here a string is a \<^typ>\<open>string\<close> whose
  characters are the code points U+0000 to U+00FF, so \<^term>\<open>of_char c\<close> is \<^verbatim>\<open>ord(c)\<close>.
  The three functions below are \<^verbatim>\<open>str.isspace\<close>, \<^verbatim>\<open>str.isalpha\<close> and \<^verbatim>\<open>str.lower\<close>
  of CPython on that range; \<^verbatim>\<open>str.lower\<close> maps the range into itself. On lists of
  characters, \<open>\<le>\<close> is the lexicographic order by code point, which is how Python
  compares two \<^verbatim>\<open>str\<close> values.
\<close>

definition char_isspace :: "char \<Rightarrow> bool" where
  "char_isspace c =
     (let n = (of_char c :: nat)
      in (9 \<le> n \<and> n \<le> 13) \<or> (28 \<le> n \<and> n \<le> 32) \<or> n = 133 \<or> n = 160)"

definition char_isalpha :: "char \<Rightarrow> bool" where
  "char_isalpha c =
     (let n = (of_char c :: nat)
      in (65 \<le> n \<and> n \<le> 90) \<or> (97 \<le> n \<and> n \<le> 122) \<or> n = 170 \<or> n = 181 \<or> n = 186
         \<or> (192 \<le> n \<and> n \<le> 214) \<or> (216 \<le> n \<and> n \<le> 246) \<or> (248 \<le> n \<and> n \<le> 255))"

definition char_lower :: "char \<Rightarrow> char" where
  "char_lower c =
     (let n = (of_char c :: nat)
      in if (65 \<le> n \<and> n \<le> 90) \<or> (192 \<le> n \<and> n \<le> 214) \<or> (216 \<le> n \<and> n \<le> 222)
         then char_of (n + 32) else c)"

text \<open>\<^verbatim>\<open>s.strip()\<close>: leading and trailing whitespace removed.\<close>

definition str_strip :: "string \<Rightarrow> string" where
  "str_strip s = rev (dropWhile char_isspace (rev (dropWhile char_isspace s)))"

text \<open>\<^verbatim>\<open>s.lower()\<close>.\<close>

definition str_lower :: "string \<Rightarrow> string" where
  "str_lower s = map char_lower s"

text \<open>\<^verbatim>\<open>s.isalpha()\<close>: at least one character, and every character a letter.\<close>

definition str_isalpha :: "string \<Rightarrow> bool" where
  "str_isalpha s = (s \<noteq> [] \<and> list_all char_isalpha s)"


section \<open>The data\<close>

text \<open>
  A row of \<^verbatim>\<open>indian_express_news_dataset.csv\<close>, with the four string columns the program
  reads. The data frame \<^verbatim>\<open>df\<close> is the list of its rows, in row order.
\<close>

record article =
  headlines :: string
  content :: string
  category :: string
  url :: string

text \<open>The exceptions that the code under study can raise during one search.\<close>

datatype py_error =
    ReError         \<comment> \<open>\<^verbatim>\<open>re.error\<close>: the query is not a well-formed pattern\<close>
  | ValueError      \<comment> \<open>\<^verbatim>\<open>LdaModel\<close>: "cannot compute LDA over an empty collection (no terms)"\<close>
  | NotInFragment   \<comment> \<open>not an exception: a pattern outside the fragment of \<open>re_compile\<close> below\<close>


section \<open>The pattern engine behind \<^verbatim>\<open>Series.str.contains\<close>\<close>

text \<open>
  \<^verbatim>\<open>Series.str.contains(pat)\<close> is called with its defaults, \<^verbatim>\<open>case=True, regex=True\<close>: it
  compiles \<^verbatim>\<open>pat\<close> as a regular expression once (raising \<^verbatim>\<open>re.error\<close> when it is not one,
  whatever the rows are) and then tests every element with \<^verbatim>\<open>pattern.search\<close>. The engine
  is an argument of the model: a function from the pattern to either the exception or the
  compiled test on a string. Every general theorem below holds for every engine.
\<close>

type_synonym pattern_engine = "string \<Rightarrow> py_error + (string \<Rightarrow> bool)"

definition str_contains :: "pattern_engine \<Rightarrow> string \<Rightarrow> string list \<Rightarrow> py_error + bool list" where
  "str_contains engine pat col =
     (case engine pat of Inl e \<Rightarrow> Inl e | Inr found \<Rightarrow> Inr (map found col))"

text \<open>
  For the concrete runs, \<open>re_compile\<close> is Python's \<^verbatim>\<open>re\<close> on a fragment of its syntax:
  patterns made of ordinary characters, the dot, and grouping parentheses. An ordinary
  character matches itself, the dot matches any character but the newline, parentheses
  must balance (\<^verbatim>\<open>re.error\<close> otherwise) and group without changing what matches. A pattern
  that uses any other metacharacter is outside the fragment and is answered with
  \<^term>\<open>NotInFragment\<close>; nothing is concluded from that answer.
\<close>

datatype atom = Lit char | AnyChar

definition metachars :: "char list" where
  "metachars = [CHR ''.'', CHR ''^'', CHR ''$'', CHR ''*'', CHR ''+'', CHR ''?'', CHR ''{'', CHR ''}'',
                CHR ''['', CHR '']'', CHR 0x5C, CHR ''|'', CHR ''('', CHR '')'']"

fun re_parse :: "nat \<Rightarrow> string \<Rightarrow> py_error + atom list" where
  "re_parse depth [] = (if depth = 0 then Inr [] else Inl ReError)"
| "re_parse depth (c # cs) =
     (if c = CHR ''('' then re_parse (Suc depth) cs
      else if c = CHR '')'' then (case depth of 0 \<Rightarrow> Inl ReError | Suc d \<Rightarrow> re_parse d cs)
      else if c = CHR ''.'' then map_sum id ((#) AnyChar) (re_parse depth cs)
      else if c \<in> set metachars then Inl NotInFragment
      else map_sum id ((#) (Lit c)) (re_parse depth cs))"

fun atom_ok :: "atom \<Rightarrow> char \<Rightarrow> bool" where
  "atom_ok (Lit x) c = (c = x)"
| "atom_ok AnyChar c = (c \<noteq> CHR 0x0A)"

fun match_here :: "atom list \<Rightarrow> string \<Rightarrow> bool" where
  "match_here [] s = True"
| "match_here (a # as) [] = False"
| "match_here (a # as) (c # cs) = (atom_ok a c \<and> match_here as cs)"

fun re_search :: "atom list \<Rightarrow> string \<Rightarrow> bool" where
  "re_search r [] = match_here r []"
| "re_search r (c # cs) = (match_here r (c # cs) \<or> re_search r cs)"

definition re_compile :: pattern_engine where
  "re_compile pat = map_sum id re_search (re_parse 0 pat)"


section \<open>\<^verbatim>\<open>search_articles\<close>\<close>

text \<open>
  \<^verbatim>\<open>
  def search_articles(query, category_filter, df):
      query = query.strip().lower()
      if category_filter != "All":
          df = df[df['category'] == category_filter]
      if query:
          df = df[(df['headlines'].str.lower().str.contains(query)) |
                  (df['content'].str.lower().str.contains(query))]
      return df
  \<close>
  Indexing a frame with a boolean mask keeps the rows whose mask is true, in row order.
  Both masks compile the same pattern, so the second call raises exactly when the first does.
\<close>

definition mask_or :: "bool list \<Rightarrow> bool list \<Rightarrow> bool list" where
  "mask_or xs ys = map (\<lambda>(x, y). x \<or> y) (zip xs ys)"

definition select_rows :: "'a list \<Rightarrow> bool list \<Rightarrow> 'a list" where
  "select_rows df keep = map fst (filter snd (zip df keep))"

definition search_articles :: "pattern_engine \<Rightarrow> string \<Rightarrow> string \<Rightarrow> article list \<Rightarrow> py_error + article list" where
  "search_articles engine query category_filter df =
     (let query = str_lower (str_strip query);
          df = (if category_filter \<noteq> ''All''
                then select_rows df (map (\<lambda>c. c = category_filter) (map category df))
                else df)
      in if query \<noteq> []
         then (case str_contains engine query (map str_lower (map headlines df)) of
                 Inl e \<Rightarrow> Inl e
               | Inr m1 \<Rightarrow>
                   (case str_contains engine query (map str_lower (map content df)) of
                      Inl e \<Rightarrow> Inl e
                    | Inr m2 \<Rightarrow> Inr (select_rows df (mask_or m1 m2))))
         else Inr df)"

text \<open>
  The search as the specification words it: the category test is skipped for the sentinel
  \<^verbatim>\<open>"All"\<close>, the text test is skipped for a query that is empty once trimmed, and the text
  test is containment of the lowercased query as a substring, ignoring case.
\<close>

definition contains_ignoring_case :: "string \<Rightarrow> string \<Rightarrow> bool" where
  "contains_ignoring_case q s = sublist (str_lower q) (str_lower s)"

definition search_articles_spec :: "string \<Rightarrow> string \<Rightarrow> article list \<Rightarrow> article list" where
  "search_articles_spec query category_filter df =
     filter (\<lambda>a. (category_filter = ''All'' \<or> category a = category_filter)
               \<and> (str_strip query = []
                  \<or> contains_ignoring_case (str_lower (str_strip query)) (headlines a)
                  \<or> contains_ignoring_case (str_lower (str_strip query)) (content a))) df"


text \<open>
  The categories that \<^verbatim>\<open>main\<close> offers in its select box:
  \<^verbatim>\<open>categories = ["All"] + sorted(df['category'].unique().tolist())\<close>.
\<close>

definition category_values :: "article list \<Rightarrow> string list" where
  "category_values df = sort (remdups (map category df))"

definition categories :: "article list \<Rightarrow> string list" where
  "categories df = ''All'' # category_values df"


section \<open>\<^verbatim>\<open>preprocess_text\<close>\<close>

text \<open>
  \<^verbatim>\<open>
  def preprocess_text(text):
      stop_words = set(stopwords.words('english'))
      tokens = word_tokenize(text.lower())
      tokens = [word for word in tokens if word.isalpha() and word not in stop_words]
      return tokens
  \<close>
  NLTK's \<^verbatim>\<open>word_tokenize\<close> (the Punkt sentence splitter followed by the Treebank word
  tokenizer) and the list \<^verbatim>\<open>stopwords.words('english')\<close> are arguments of the model. Both
  are read from NLTK's data files, which are taken to be installed.
\<close>

type_synonym tokenizer = "string \<Rightarrow> string list"

definition preprocess_text :: "tokenizer \<Rightarrow> string list \<Rightarrow> string \<Rightarrow> string list" where
  "preprocess_text word_tokenize stopwords_english text =
     (let stop_words = set stopwords_english;
          tokens = word_tokenize (str_lower text);
          tokens = filter (\<lambda>word. str_isalpha word \<and> word \<notin> stop_words) tokens
      in tokens)"


section \<open>The gensim dictionary\<close>

text \<open>
  \<^verbatim>\<open>corpora.Dictionary\<close> keeps \<^verbatim>\<open>token2id\<close> (token to id), \<^verbatim>\<open>dfs\<close> (id to the number of
  documents holding the token) and \<^verbatim>\<open>num_docs\<close>. A Python \<^verbatim>\<open>dict\<close> is an association list
  in insertion order: assigning to a key that is present replaces its value in place,
  assigning to a new key appends (\<^const>\<open>AList.update\<close>). The counters \<^verbatim>\<open>cfs\<close>, \<^verbatim>\<open>num_pos\<close>
  and \<^verbatim>\<open>num_nnz\<close> are statistics that no result below reads; they are left out.
\<close>

record dictionary =
  token2id :: "(string \<times> nat) list"
  dfs :: "(nat \<times> nat) list"
  num_docs :: nat

definition empty_dictionary :: dictionary where
  "empty_dictionary = \<lparr>token2id = [], dfs = [], num_docs = 0\<rparr>"

text \<open>\<^verbatim>\<open>d.get(k, default)\<close>.\<close>

definition dict_get :: "('k \<times> 'v) list \<Rightarrow> 'k \<Rightarrow> 'v \<Rightarrow> 'v" where
  "dict_get d k dflt = (case map_of d k of None \<Rightarrow> dflt | Some v \<Rightarrow> v)"

text \<open>
  \<^verbatim>\<open>
  counter = defaultdict(int)
  for w in document:
      counter[w] += 1
  \<close>
\<close>

definition count_tokens :: "string list \<Rightarrow> (string \<times> nat) list" where
  "count_tokens document = fold (\<lambda>w counter. AList.update w (dict_get counter w 0 + 1) counter) document []"

text \<open>
  \<^verbatim>\<open>result = {token2id[w]: freq for w, freq in counter.items() if w in token2id}\<close>
\<close>

definition bow_result :: "(string \<times> nat) list \<Rightarrow> (string \<times> nat) list \<Rightarrow> (nat \<times> nat) list" where
  "bow_result t2i counter =
     fold (\<lambda>(w, freq) result.
             (case map_of t2i w of None \<Rightarrow> result | Some i \<Rightarrow> AList.update i freq result))
          counter []"

text \<open>
  \<^verbatim>\<open>Dictionary.doc2bow(document)\<close>, with \<^verbatim>\<open>allow_update=False\<close>: the counts of the known
  tokens, \<^verbatim>\<open>sorted(result.items())\<close>, that is in ascending id order.
\<close>

definition doc2bow :: "dictionary \<Rightarrow> string list \<Rightarrow> (nat \<times> nat) list" where
  "doc2bow d document = sort (bow_result (token2id d) (count_tokens document))"

text \<open>
  \<^verbatim>\<open>Dictionary.doc2bow(document, allow_update=True)\<close>, for its effect on the dictionary:
  \<^verbatim>\<open>
  missing = sorted(x for x in counter.items() if x[0] not in token2id)
  for w, _ in missing:
      token2id[w] = len(token2id)
  result = {token2id[w]: freq for w, freq in counter.items() if w in token2id}
  self.num_docs += 1
  for tokenid, freq in result.items():
      self.dfs[tokenid] = self.dfs.get(tokenid, 0) + 1
  \<close>
  The new tokens of a document get their ids in sorted order, not in the order in which
  the document has them.
\<close>

definition doc2bow_update :: "dictionary \<Rightarrow> string list \<Rightarrow> dictionary" where
  "doc2bow_update d document =
     (let counter = count_tokens document;
          missing = sort (filter (\<lambda>x. map_of (token2id d) (fst x) = None) counter);
          t2i = fold (\<lambda>(w, _) t2i. AList.update w (length t2i) t2i) missing (token2id d);
          result = bow_result t2i counter
      in \<lparr>token2id = t2i,
          dfs = fold (\<lambda>(tokenid, freq) dfs. AList.update tokenid (dict_get dfs tokenid 0 + 1) dfs)
                  result (dfs d),
          num_docs = num_docs d + 1\<rparr>)"

text \<open>
  \<^verbatim>\<open>Dictionary.compactify()\<close>: the ids are renumbered to close the gaps, keeping their order.
  \<^verbatim>\<open>
  idmap = dict(zip(sorted(self.token2id.values()), range(len(self.token2id))))
  self.token2id = {token: idmap[tokenid] for token, tokenid in self.token2id.items()}
  self.dfs = {idmap[tokenid]: freq for tokenid, freq in self.dfs.items()}
  \<close>
\<close>

definition compactify :: "dictionary \<Rightarrow> dictionary" where
  "compactify d =
     (let idmap = zip (sort (map snd (token2id d))) [0..<length (token2id d)]
      in d\<lparr>token2id := map (\<lambda>(token, tokenid). (token, the (map_of idmap tokenid))) (token2id d),
           dfs := map (\<lambda>(tokenid, freq). (the (map_of idmap tokenid), freq)) (dfs d)\<rparr>)"

text \<open>\<^verbatim>\<open>Dictionary.filter_tokens(good_ids=good_ids)\<close>.\<close>

definition filter_tokens :: "dictionary \<Rightarrow> nat list \<Rightarrow> dictionary" where
  "filter_tokens d good_ids =
     compactify (d\<lparr>token2id := filter (\<lambda>(token, tokenid). tokenid \<in> set good_ids) (token2id d),
                   dfs := filter (\<lambda>(tokenid, freq). tokenid \<in> set good_ids) (dfs d)\<rparr>)"

text \<open>
  \<^verbatim>\<open>Dictionary.filter_extremes(no_below=0, no_above=1.0, keep_n=keep_n)\<close>, the only way the
  constructor calls it, so that \<^verbatim>\<open>no_above_abs = int(1.0 * num_docs)\<close> is \<^verbatim>\<open>num_docs\<close>:
  \<^verbatim>\<open>
  good_ids = [v for v in self.token2id.values()
              if no_below <= self.dfs.get(v, 0) <= no_above_abs]
  good_ids.sort(key=self.dfs.get, reverse=True)
  good_ids = good_ids[:keep_n]
  self.filter_tokens(good_ids=good_ids)
  \<close>
  A reverse sort of Python reverses the list, sorts it stably, and reverses the result.
\<close>

definition filter_extremes :: "dictionary \<Rightarrow> nat \<Rightarrow> dictionary" where
  "filter_extremes d keep_n =
     (let no_above_abs = num_docs d;
          good_ids = filter (\<lambda>v. 0 \<le> dict_get (dfs d) v 0 \<and> dict_get (dfs d) v 0 \<le> no_above_abs)
                       (map snd (token2id d));
          good_ids = rev (sort_key (\<lambda>v. dict_get (dfs d) v 0) (rev good_ids));
          good_ids = take keep_n good_ids
      in filter_tokens d good_ids)"

text \<open>
  \<^verbatim>\<open>
  def add_documents(self, documents, prune_at=2000000):
      for docno, document in enumerate(documents):
          if docno % 10000 == 0:
              if prune_at is not None and len(self) > prune_at:
                  self.filter_extremes(no_below=0, no_above=1.0, keep_n=prune_at)
          self.doc2bow(document, allow_update=True)
  \<close>
  The loop, from document number \<open>docno\<close> on.
\<close>

fun add_documents :: "nat \<Rightarrow> nat \<Rightarrow> string list list \<Rightarrow> dictionary \<Rightarrow> dictionary" where
  "add_documents prune_at docno [] d = d"
| "add_documents prune_at docno (document # documents) d =
     add_documents prune_at (docno + 1) documents
       (doc2bow_update
          (if docno mod 10000 = 0 \<and> length (token2id d) > prune_at
           then filter_extremes d prune_at else d)
          document)"

text \<open>\<^verbatim>\<open>corpora.Dictionary(documents)\<close>, with the default \<^verbatim>\<open>prune_at=2000000\<close>.\<close>

definition Dictionary :: "string list list \<Rightarrow> dictionary" where
  "Dictionary documents = add_documents 2000000 0 documents empty_dictionary"


section \<open>\<^verbatim>\<open>build_lda_model\<close>\<close>

text \<open>
  The fit of the model is a random, floating-point optimisation; it is an argument \<open>fit\<close>
  of the model, from the corpus, the dictionary, the number of topics and the number of
  passes to a fitted model of an arbitrary type \<open>'m\<close>. What \<^verbatim>\<open>LdaModel\<close> does before it
  fits is modelled:
  \<^verbatim>\<open>
  if len(self.id2word) > 0:
      self.num_terms = 1 + max(self.id2word.keys())
  else:
      self.num_terms = 0
  if self.num_terms == 0:
      raise ValueError("cannot compute LDA over an empty collection (no terms)")
  \<close>
\<close>

type_synonym 'm lda_fit = "(nat \<times> nat) list list \<Rightarrow> dictionary \<Rightarrow> nat \<Rightarrow> nat \<Rightarrow> 'm"

definition LdaModel :: "'m lda_fit \<Rightarrow> (nat \<times> nat) list list \<Rightarrow> dictionary \<Rightarrow> nat \<Rightarrow> nat \<Rightarrow> py_error + 'm" where
  "LdaModel fit corpus id2word num_topics passes =
     (let num_terms = (if length (token2id id2word) > 0
                       then 1 + Max (set (map snd (token2id id2word))) else 0)
      in if num_terms = 0 then Inl ValueError
         else Inr (fit corpus id2word num_topics passes))"

text \<open>
  \<^verbatim>\<open>
  def build_lda_model(docs, num_topics=5):
      dictionary = corpora.Dictionary(docs)
      corpus = [dictionary.doc2bow(doc) for doc in docs]
      lda_model = LdaModel(corpus=corpus, id2word=dictionary, num_topics=num_topics, passes=10)
      return lda_model, dictionary
  \<close>
\<close>

definition build_lda_model :: "'m lda_fit \<Rightarrow> string list list \<Rightarrow> nat \<Rightarrow> py_error + ('m \<times> dictionary)" where
  "build_lda_model fit docs num_topics =
     (let dictionary = Dictionary docs;
          corpus = map (doc2bow dictionary) docs
      in case LdaModel fit corpus dictionary num_topics 10 of
           Inl e \<Rightarrow> Inl e
         | Inr lda_model \<Rightarrow> Inr (lda_model, dictionary))"


section \<open>What a click on the search button does\<close>

text \<open>
  The page is the list of the elements that \<^verbatim>\<open>main\<close> writes after the button is pressed,
  in order; an exception ends the run. \<^verbatim>\<open>lda_model.print_topics\<close> is an argument.
  \<^verbatim>\<open>
  def display_topics(lda_model, num_words=5):
      topics = lda_model.print_topics(num_words=num_words)
      for idx, topic in topics:
          st.markdown(f"**Topic {idx + 1}:** {topic}")
  \<close>
\<close>

datatype element =
    Heading nat            \<comment> \<open>\<^verbatim>\<open>Search Results (n)\<close>\<close>
  | Result_item article
  | No_articles_found      \<comment> \<open>\<^verbatim>\<open>st.info("No articles found matching your search ...")\<close>\<close>
  | Topic nat string       \<comment> \<open>\<^verbatim>\<open>**Topic n:** terms\<close>\<close>
  | No_content             \<comment> \<open>\<^verbatim>\<open>st.write("No content available for topic modeling.")\<close>\<close>

type_synonym 'm topic_printer = "'m \<Rightarrow> nat \<Rightarrow> (nat \<times> string) list"

definition display_topics :: "'m topic_printer \<Rightarrow> 'm \<Rightarrow> nat \<Rightarrow> element list" where
  "display_topics print_topics lda_model num_words =
     map (\<lambda>(idx, topic). Topic (idx + 1) topic) (print_topics lda_model num_words)"

text \<open>
  \<^verbatim>\<open>
  if st.button("Search"):
      results = search_articles(query, category_filter, df)
      st.markdown(f"<h3>Search Results ({len(results)})</h3>", ...)
      if not results.empty:
          for _, article in results.iterrows():
              st.markdown(...)
      else:
          st.info("No articles found matching your search and category filter. ...")
      processed_docs = results['content'].apply(preprocess_text).tolist()
      if processed_docs:
          lda_model, dictionary = build_lda_model(processed_docs, num_topics=5)
          display_topics(lda_model)
      else:
          st.write("No content available for topic modeling.")
  \<close>
  \<^verbatim>\<open>if processed_docs\<close> tests that the list of token sequences is not empty; the sequences
  in it may be.
\<close>

definition search_clicked ::
  "pattern_engine \<Rightarrow> tokenizer \<Rightarrow> string list \<Rightarrow> 'm lda_fit \<Rightarrow> 'm topic_printer
     \<Rightarrow> string \<Rightarrow> string \<Rightarrow> article list \<Rightarrow> py_error + element list" where
  "search_clicked engine word_tokenize stopwords_english fit print_topics query category_filter df =
     (case search_articles engine query category_filter df of
        Inl e \<Rightarrow> Inl e
      | Inr results \<Rightarrow>
          (let listing = Heading (length results)
                           # (if results \<noteq> [] then map Result_item results else [No_articles_found]);
               processed_docs = map (preprocess_text word_tokenize stopwords_english)
                                    (map content results)
           in if processed_docs \<noteq> []
              then (case build_lda_model fit processed_docs 5 of
                      Inl e \<Rightarrow> Inl e
                    | Inr (lda_model, dictionary) \<Rightarrow>
                        Inr (listing @ display_topics print_topics lda_model 5))
              else Inr (listing @ [No_content])))"


section \<open>Notions of the specification\<close>

text \<open>
  The order of first occurrence over the batch, which the specification gives as the
  order of the ids.
\<close>

definition first_seen :: "string list list \<Rightarrow> string list" where
  "first_seen docs = fold (\<lambda>w seen. if w \<in> set seen then seen else seen @ [w]) (concat docs) []"

text \<open>
  The order in which the dictionary hands out ids while it does not prune: document by
  document, the new tokens of a document in ascending order.
\<close>

definition id_order :: "string list list \<Rightarrow> string list" where
  "id_order docs =
     fold (\<lambda>doc seen. seen @ sort (remdups (filter (\<lambda>w. w \<notin> set seen) doc))) docs []"

text \<open>
  A batch on which \<^verbatim>\<open>add_documents\<close> never prunes: at every document whose number is a
  multiple of 10000, the documents before it hold at most 2000000 different tokens.
\<close>

definition no_pruning :: "string list list \<Rightarrow> bool" where
  "no_pruning docs =
     list_all (\<lambda>docno. docno mod 10000 = 0
                 \<longrightarrow> length (remdups (concat (take docno docs))) \<le> 2000000)
       [0..<length docs]"

text \<open>
  Dense ids: the ids of a token-to-id table of \<open>n\<close> entries are \<open>0, \<dots>, n - 1\<close>, each given
  once (here in the order of the entries), and no token has two entries.
\<close>

definition dense_ids :: "(string \<times> nat) list \<Rightarrow> bool" where
  "dense_ids t2i = (map snd t2i = [0..<length t2i] \<and> distinct (map fst t2i))"

text \<open>
  Decoding a bag of words through the dictionary: each pair \<open>(id, count)\<close> stands for
  \<open>count\<close> copies of the token with that id (\<^verbatim>\<open>dictionary[id]\<close>).
\<close>

definition id2token :: "dictionary \<Rightarrow> nat \<Rightarrow> string option" where
  "id2token d = map_of (map (\<lambda>(token, tokenid). (tokenid, token)) (token2id d))"

definition decode :: "dictionary \<Rightarrow> (nat \<times> nat) list \<Rightarrow> string list" where
  "decode d bow =
     concat (map (\<lambda>(tokenid, freq).
                    (case id2token d tokenid of None \<Rightarrow> [] | Some w \<Rightarrow> replicate freq w)) bow)"

text \<open>The rows kept by the category step and by the text step, as predicates on a row.\<close>

definition category_ok :: "string \<Rightarrow> article \<Rightarrow> bool" where
  "category_ok category_filter a = (category_filter = ''All'' \<or> category a = category_filter)"

definition text_ok :: "(string \<Rightarrow> bool) \<Rightarrow> article \<Rightarrow> bool" where
  "text_ok found a = (found (str_lower (headlines a)) \<or> found (str_lower (content a)))"


section \<open>Instances for the concrete runs\<close>

text \<open>
  The theorems hold for every tokenizer, stopword list, fit and topic printer. Where a
  closed instance is needed, the tokenizer is Python's \<^verbatim>\<open>str.split()\<close> (the last step of
  NLTK's word tokenizer), the stopword list holds a few words of NLTK's English list, and
  the fitted model is just the number of topics asked for.
\<close>

fun split_from :: "string \<Rightarrow> string \<Rightarrow> string list" where
  "split_from w [] = (if w = [] then [] else [w])"
| "split_from w (c # cs) =
     (if char_isspace c then (if w = [] then split_from [] cs else w # split_from [] cs)
      else split_from (w @ [c]) cs)"

definition str_split :: tokenizer where
  "str_split s = split_from [] s"

definition some_stopwords :: "string list" where
  "some_stopwords = [''i'', ''the'', ''a'', ''an'', ''and'', ''is'', ''of'', ''no'']"

definition topic_count_fit :: "nat lda_fit" where
  "topic_count_fit corpus id2word num_topics passes = num_topics"

definition numbered_topics :: "nat topic_printer" where
  "numbered_topics lda_model num_words = map (\<lambda>i. (i, ''topic'')) [0..<lda_model]"

definition article_1 :: article where
  "article_1 = \<lparr>headlines = ''Cricket final'', content = ''India won the cricket final.'',
                 category = ''Sports'', url = ''u1''\<rparr>"

definition article_2 :: article where
  "article_2 = \<lparr>headlines = ''Markets'', content = ''A cricket bat maker lists'',
                 category = ''Business'', url = ''u2''\<rparr>"

definition article_3 :: article where
  "article_3 = \<lparr>headlines = ''Hockey'', content = ''The and of'',
                 category = ''Sports'', url = ''u3''\<rparr>"

definition article_4 :: article where
  "article_4 = \<lparr>headlines = ''Everything'', content = ''A row filed under All'',
                 category = ''All'', url = ''u4''\<rparr>"

definition example_df :: "article list" where
  "example_df = [article_1, article_2, article_3]"

text \<open>
  Batches of token sequences. In the small one the first document has \<^verbatim>\<open>"b"\<close> twice and
  before \<^verbatim>\<open>"a"\<close>. The big one is pruned: its first document holds every word of five
  lower-case letters once, more than 2000000 tokens, and 10000 empty documents follow.
\<close>

definition small_batch :: "string list list" where
  "small_batch = [[''b'', ''a'', ''b''], [''c'', ''a'']]"

definition big_doc :: "string list" where
  "big_doc = List.n_lists 5 ''abcdefghijklmnopqrstuvwxyz''"

definition big_batch :: "string list list" where
  "big_batch = big_doc # replicate 9999 [] @ [[]]"


section \<open>Facts about the search\<close>

lemma select_rows_map: "select_rows df (map p df) = filter p df"
  by (induction df) (simp_all add: select_rows_def)

lemma mask_or_map: "mask_or (map p xs) (map q xs) = map (\<lambda>x. p x \<or> q x) xs"
  by (induction xs) (simp_all add: mask_or_def)

lemma category_ok_fun:
  "category_ok category_filter = (\<lambda>a. category_filter = ''All'' \<or> category a = category_filter)"
  by (rule ext) (simp add: category_ok_def)

lemma filter_category_ok:
  "(if category_filter \<noteq> ''All'' then filter (\<lambda>a. category a = category_filter) df else df)
   = filter (category_ok category_filter) df"
  by (simp add: category_ok_fun)

lemma search_articles_eq:
  "search_articles engine query category_filter df =
     (if str_lower (str_strip query) = [] then Inr (filter (category_ok category_filter) df)
      else (case engine (str_lower (str_strip query)) of
              Inl e \<Rightarrow> Inl e
            | Inr found \<Rightarrow>
                Inr (filter (\<lambda>a. category_ok category_filter a \<and> text_ok found a) df)))"
proof -
  let ?df = "filter (category_ok category_filter) df"
  have rows: "(if category_filter \<noteq> ''All''
               then select_rows df (map (\<lambda>c. c = category_filter) (map category df))
               else df) = ?df"
  proof -
    have "map (\<lambda>c. c = category_filter) (map category df)
          = map (\<lambda>a. category a = category_filter) df"
      by simp
    then show ?thesis
      using filter_category_ok [of category_filter df]
      by (simp only: select_rows_map)
  qed
  have sel: "select_rows ?df (mask_or (map found (map str_lower (map headlines ?df)))
                                      (map found (map str_lower (map content ?df))))
             = filter (\<lambda>a. category_ok category_filter a \<and> text_ok found a) df" for found
  proof -
    have "mask_or (map found (map str_lower (map headlines ?df)))
                  (map found (map str_lower (map content ?df)))
          = map (text_ok found) ?df"
      using mask_or_map [of "\<lambda>a. found (str_lower (headlines a))" ?df
                            "\<lambda>a. found (str_lower (content a))"]
      by (simp add: comp_def text_ok_def)
    then show ?thesis
      by (simp add: select_rows_map conj_commute)
  qed
  show ?thesis
    unfolding search_articles_def Let_def rows str_contains_def
    by (simp add: sel [simplified] split: sum.splits)
qed

lemma str_lower_Nil_iff: "str_lower s = [] \<longleftrightarrow> s = []"
  by (simp add: str_lower_def)

lemma char_lower_idem: "char_lower (char_lower c) = char_lower c"
  by (auto simp: char_lower_def Let_def)

lemma str_lower_idem: "str_lower (str_lower s) = str_lower s"
  by (simp add: str_lower_def char_lower_idem)

text \<open>A pattern without metacharacters is searched for as it stands.\<close>

lemma re_parse_plain:
  "set q \<inter> set metachars = {} \<Longrightarrow> re_parse 0 q = Inr (map Lit q)"
  by (induction q) (auto simp: metachars_def)

lemma match_here_Lit: "match_here (map Lit q) s \<longleftrightarrow> prefix q s"
  by (induction "map Lit q" s arbitrary: q rule: match_here.induct) auto

lemma re_search_Lit: "re_search (map Lit q) s \<longleftrightarrow> sublist q s"
  by (induction s) (auto simp: match_here_Lit sublist_Cons_right)

lemma re_compile_plain:
  "set q \<inter> set metachars = {} \<Longrightarrow> re_compile q = Inr (sublist q)"
  by (auto simp: re_compile_def re_parse_plain re_search_Lit)

text \<open>
  On a query that has no metacharacter once trimmed and lowercased, the search is the
  search of the specification.
\<close>

lemma search_articles_plain_query:
  assumes "set (str_lower (str_strip query)) \<inter> set metachars = {}"
  shows "search_articles re_compile query category_filter df
         = Inr (search_articles_spec query category_filter df)"
proof -
  let ?q = "str_lower (str_strip query)"
  have c: "re_compile ?q = Inr (sublist ?q)"
    using assms by (rule re_compile_plain)
  have e: "(?q = []) = (str_strip query = [])"
    by (simp add: str_lower_def)
  show ?thesis
    by (auto simp: search_articles_eq search_articles_spec_def c e text_ok_def category_ok_def
        contains_ignoring_case_def str_lower_idem intro!: filter_cong)
qed

text \<open>Runs of the search on the example rows.\<close>

lemma example_search_cricket_sports:
  "search_articles re_compile ''cricket'' ''Sports'' example_df = Inr [article_1]"
  by code_simp

lemma example_search_nomatch:
  "search_articles re_compile ''zzzznomatch'' ''All'' example_df = Inr []"
  by code_simp

lemma example_search_hockey:
  "search_articles re_compile ''hockey'' ''All'' example_df = Inr [article_3]"
  by code_simp

text \<open>
  C1. The claim: \<^verbatim>\<open>search_articles\<close> keeps the rows that pass the category test and whose
  headline or content contains the trimmed, lowercased query as a substring, ignoring
  case. The code hands the query to \<^verbatim>\<open>str.contains\<close> as a regular expression: on the
  query \<^verbatim>\<open>.\<close> it returns all three example rows (each has a character that is not a
  newline), where the search of the claim returns the one row that has a full stop.
\<close>

theorem search_articles_dot_query:
  "search_articles re_compile ''.'' ''All'' example_df = Inr [article_1, article_2, article_3]
   \<and> search_articles_spec ''.'' ''All'' example_df = [article_1]"
  by code_simp

text \<open>
  C7. Filtering is idempotent: searching the result of a search again, with the same
  query and category, returns the same rows. This holds for every pattern engine.
\<close>

theorem search_articles_idempotent:
  "search_articles engine query category_filter df = Inr results \<Longrightarrow>
   search_articles engine query category_filter results = Inr results"
  by (auto simp: search_articles_eq split: if_splits sum.splits)

theorem search_articles_idempotent_witness:
  "search_articles re_compile ''cricket'' ''Sports'' example_df = Inr [article_1]
   \<and> search_articles re_compile ''cricket'' ''Sports'' [article_1] = Inr [article_1]"
  by (rule conjI [OF example_search_cricket_sports
        search_articles_idempotent [OF example_search_cricket_sports]])

text \<open>
  C8, as the specification has it, fails for the category \<^verbatim>\<open>"All"\<close>: when a row is filed
  under \<^verbatim>\<open>"All"\<close>, filtering by that category returns every row, also the rows of the
  other categories.
\<close>

theorem category_all_returns_other_categories:
  "search_articles re_compile [] ''All'' [article_4, article_1] = Inr [article_4, article_1]
   \<and> ''All'' \<in> set (map category [article_4, article_1])
   \<and> category article_1 \<noteq> ''All''"
  by code_simp

text \<open>
  C8, amended. With a query that is empty once trimmed: for every category \<open>c\<close> other
  than \<^verbatim>\<open>"All"\<close>, the search returns exactly the rows whose category is \<open>c\<close>, in their
  order; and the results for the distinct categories of the collection other than
  \<^verbatim>\<open>"All"\<close>, put together, hold each row that is not filed under \<^verbatim>\<open>"All"\<close> exactly once
  (so all of the collection when no row is filed under \<^verbatim>\<open>"All"\<close>).
\<close>

theorem category_filter_partition:
  assumes "str_strip query = []"
  shows "(c \<noteq> ''All'' \<longrightarrow>
            search_articles engine query c df = Inr (filter (\<lambda>a. category a = c) df))
       \<and> map (\<lambda>c. search_articles engine query c df)
              (filter (\<lambda>c. c \<noteq> ''All'') (category_values df))
         = map (\<lambda>c. Inr (filter (\<lambda>a. category a = c) df))
              (filter (\<lambda>c. c \<noteq> ''All'') (category_values df))
       \<and> mset (concat (map (\<lambda>c. filter (\<lambda>a. category a = c) df)
                           (filter (\<lambda>c. c \<noteq> ''All'') (category_values df))))
         = mset (filter (\<lambda>a. category a \<noteq> ''All'') df)"
proof -
  have one: "search_articles engine query c df = Inr (filter (\<lambda>a. category a = c) df)"
    if "c \<noteq> ''All''" for c
    using that assms by (simp add: search_articles_eq str_lower_Nil_iff category_ok_fun)
  have parts: "mset (concat (map (\<lambda>c. filter (\<lambda>a. category a = c) df) cs))
               = filter_mset (\<lambda>a. category a \<in> set cs) (mset df)" if "distinct cs" for cs
    using that
  proof (induction cs)
    case Nil
    then show ?case by simp
  next
    case (Cons c cs)
    then show ?case by (auto simp: multiset_eq_iff)
  qed
  let ?cs = "filter (\<lambda>c. c \<noteq> ''All'') (category_values df)"
  have "distinct ?cs"
    by (simp add: category_values_def)
  from parts [OF this]
  have "mset (concat (map (\<lambda>c. filter (\<lambda>a. category a = c) df) ?cs))
        = mset (filter (\<lambda>a. category a \<noteq> ''All'') df)"
    by (auto simp: category_values_def intro!: filter_mset_cong)
  then show ?thesis
    using one by simp
qed

theorem category_filter_partition_witness:
  "str_strip ''  '' = [] \<and> ''Sports'' \<noteq> ''All''
   \<and> search_articles re_compile ''  '' ''Sports'' example_df = Inr [article_1, article_3]
   \<and> map (\<lambda>c. search_articles re_compile ''  '' c example_df) [''Business'', ''Sports'']
       = [Inr [article_2], Inr [article_1, article_3]]
   \<and> mset (concat [[article_2], [article_1, article_3]]) = mset example_df"
proof -
  have s: "str_strip ''  '' = []"
    by code_simp
  have cs: "filter (\<lambda>c. c \<noteq> ''All'') (category_values example_df) = [''Business'', ''Sports'']"
    by code_simp
  have f: "filter (\<lambda>a. category a = ''Sports'') example_df = [article_1, article_3]"
          "filter (\<lambda>a. category a = ''Business'') example_df = [article_2]"
          "filter (\<lambda>a. category a \<noteq> ''All'') example_df = example_df"
    by code_simp+
  show ?thesis
    using category_filter_partition [OF s, of "''Sports''" re_compile example_df]
    unfolding cs by (simp add: f s)
qed

text \<open>
  C9. With the category filter \<^verbatim>\<open>"All"\<close> the search applies no category restriction: its
  result is the collection filtered by the text test alone. So no value of the filter
  selects the rows filed under \<^verbatim>\<open>"All"\<close>: the value \<^verbatim>\<open>"All"\<close> selects every category, and
  under any other value no row of the result is filed under \<^verbatim>\<open>"All"\<close>.
\<close>

theorem all_sentinel_no_category_restriction:
  "search_articles engine query ''All'' df =
     (if str_lower (str_strip query) = [] then Inr df
      else (case engine (str_lower (str_strip query)) of
              Inl e \<Rightarrow> Inl e
            | Inr found \<Rightarrow> Inr (filter (text_ok found) df)))
   \<and> (category_filter \<noteq> ''All'' \<longrightarrow>
        search_articles engine query category_filter df = Inr results \<longrightarrow>
        ''All'' \<notin> category ` set results)"
  by (auto simp: search_articles_eq category_ok_fun split: if_splits sum.splits)

theorem all_sentinel_no_category_restriction_witness:
  "search_articles re_compile [] ''All'' [article_4, article_1] = Inr [article_4, article_1]
   \<and> ''Sports'' \<noteq> ''All''
   \<and> search_articles re_compile [] ''Sports'' [article_4, article_1] = Inr [article_1]
   \<and> ''All'' \<notin> category ` set [article_1]"
proof -
  have a: "search_articles re_compile [] ''Sports'' [article_4, article_1] = Inr [article_1]"
    by code_simp
  have b: "str_lower (str_strip []) = []"
    by code_simp
  show ?thesis
    using all_sentinel_no_category_restriction
            [of re_compile "[]" "[article_4, article_1]" "''Sports''" "[article_1]"] a b
    by simp
qed



section \<open>Facts about the dictionary\<close>

lemma count_tokens_Nil: "count_tokens [] = []"
  by (simp add: count_tokens_def)

lemma token2id_doc2bow_update:
  "token2id (doc2bow_update d document) =
     fold (\<lambda>(w, _) t2i. AList.update w (length t2i) t2i)
       (sort (filter (\<lambda>x. map_of (token2id d) (fst x) = None) (count_tokens document)))
       (token2id d)"
  by (simp add: doc2bow_update_def Let_def)

lemma doc2bow_update_Nil:
  "token2id (doc2bow_update d []) = token2id d"
  by (simp add: token2id_doc2bow_update count_tokens_Nil)

lemma add_documents_all_empty:
  "\<forall>doc \<in> set docs. doc = [] \<Longrightarrow> token2id d = [] \<Longrightarrow>
   token2id (add_documents prune_at docno docs d) = []"
proof (induction docs arbitrary: d docno)
  case Nil
  then show ?case by simp
next
  case (Cons doc docs)
  have "token2id (doc2bow_update d doc) = []"
    using Cons.prems by (simp add: doc2bow_update_Nil)
  with Cons show ?case by simp
qed

lemma build_lda_model_no_terms:
  assumes "\<forall>doc \<in> set docs. doc = []"
  shows "build_lda_model fit docs num_topics = Inl ValueError"
proof -
  have "token2id (Dictionary docs) = []"
    unfolding Dictionary_def
    by (rule add_documents_all_empty [OF assms]) (simp add: empty_dictionary_def)
  then show ?thesis
    by (simp add: build_lda_model_def LdaModel_def)
qed


subsection \<open>Association lists\<close>

lemma update_new: "k \<notin> fst ` set al \<Longrightarrow> AList.update k v al = al @ [(k, v)]"
  by (induction al) auto

lemma fold_update_new:
  "distinct (map fst ms) \<Longrightarrow> fst ` set ms \<inter> fst ` set t = {} \<Longrightarrow>
   fold (\<lambda>(w, _) t. AList.update w (length t) t) ms t
   = t @ zip (map fst ms) [length t..<length t + length ms]"
proof (induction ms arbitrary: t)
  case Nil
  then show ?case by simp
next
  case (Cons m ms)
  obtain w f where m: "m = (w, f)"
    by (cases m)
  have new: "AList.update w (length t) t = t @ [(w, length t)]"
    using Cons.prems by (intro update_new) (auto simp: m)
  have "fold (\<lambda>(w, _) t. AList.update w (length t) t) ms (t @ [(w, length t)])
        = (t @ [(w, length t)])
          @ zip (map fst ms) [length (t @ [(w, length t)])..<length (t @ [(w, length t)]) + length ms]"
    using Cons.prems by (intro Cons.IH) (auto simp: m)
  moreover have "[length t..<length t + length (m # ms)]
                 = length t # [Suc (length t)..<Suc (length t) + length ms]"
    by (simp add: upt_rec)
  ultimately show ?case
    by (simp add: m new del: upt_Suc)
qed

lemma map_fst_sort_pairs:
  fixes ms :: "('a::linorder \<times> 'b::linorder) list"
  shows "map fst (sort ms) = sort (map fst ms)"
proof -
  have "sorted_wrt (\<lambda>x y. fst x \<le> fst y) (sort ms)"
    by (rule sorted_wrt_mono_rel [of _ "(\<le>)"]) (auto simp: less_eq_prod_def)
  then have "sorted (map fst (sort ms))"
    by (simp add: sorted_map)
  moreover have "mset (map fst (sort ms)) = mset (map fst ms)"
    by simp
  ultimately have "sort (map fst ms) = map fst (sort ms)"
    by (intro properties_for_sort)
  then show ?thesis
    by simp
qed

subsection \<open>Counting the tokens of a document\<close>

lemma count_tokens_fold:
  "count_tokens doc
   = fold (\<lambda>w counter. AList.update w (Suc (dict_get counter w 0)) counter) doc []"
  by (simp add: count_tokens_def)

lemma fold_count_keys:
  "fst ` set (fold (\<lambda>w counter. AList.update w (Suc (dict_get counter w 0)) counter) doc c)
   = fst ` set c \<union> set doc"
  by (induction doc arbitrary: c) (auto simp: dom_update)

lemma fold_count_distinct:
  "distinct (map fst c) \<Longrightarrow>
   distinct (map fst (fold (\<lambda>w counter. AList.update w (Suc (dict_get counter w 0)) counter) doc c))"
  by (induction doc arbitrary: c) (auto simp: distinct_update)

lemma count_tokens_keys: "fst ` set (count_tokens doc) = set doc"
  using fold_count_keys [of doc "[]"] by (simp add: count_tokens_fold)

lemma count_tokens_distinct: "distinct (map fst (count_tokens doc))"
  using fold_count_distinct [of "[]" doc] by (simp add: count_tokens_fold)

text \<open>The tokens that a counter stands for, each as often as it is counted.\<close>

lemma expand_count_step:
  "mset (concat (map (\<lambda>(w, f). replicate f w) (AList.update w (Suc (dict_get c w 0)) c)))
   = add_mset w (mset (concat (map (\<lambda>(w, f). replicate f w) c)))"
  by (induction c) (auto simp: dict_get_def)

lemma expand_fold_count:
  "mset (concat (map (\<lambda>(w, f). replicate f w)
           (fold (\<lambda>w counter. AList.update w (Suc (dict_get counter w 0)) counter) doc c)))
   = mset (concat (map (\<lambda>(w, f). replicate f w) c)) + mset doc"
  by (induction doc arbitrary: c) (simp_all add: expand_count_step)

lemma expand_count_tokens:
  "mset (concat (map (\<lambda>(w, f). replicate f w) (count_tokens doc))) = mset doc"
  using expand_fold_count [of doc "[]"] by (simp add: count_tokens_fold)

subsection \<open>One document added to the dictionary\<close>

lemma missing_keys:
  "map fst (sort (filter (\<lambda>x. map_of t (fst x) = None) (count_tokens doc)))
   = sort (remdups (filter (\<lambda>w. w \<notin> fst ` set t) doc))"
proof -
  let ?ks = "filter (\<lambda>w. w \<notin> fst ` set t) (map fst (count_tokens doc))"
  have "map fst (sort (filter (\<lambda>x. map_of t (fst x) = None) (count_tokens doc))) = sort ?ks"
    by (simp add: map_fst_sort_pairs filter_map comp_def map_of_eq_None_iff)
  moreover have "sort ?ks = sort (remdups (filter (\<lambda>w. w \<notin> fst ` set t) doc))"
  proof (rule sorted_distinct_set_unique)
    show "set (sort ?ks) = set (sort (remdups (filter (\<lambda>w. w \<notin> fst ` set t) doc)))"
      using count_tokens_keys [of doc] by auto
    show "distinct (sort ?ks)"
      using count_tokens_distinct [of doc] by simp
  qed simp_all
  ultimately show ?thesis
    by simp
qed


lemma token2id_doc2bow_update_dense:
  fixes d :: dictionary and doc :: "string list"
  assumes "dense_ids (token2id d)"
  defines "new \<equiv> sort (remdups (filter (\<lambda>w. w \<notin> fst ` set (token2id d)) doc))"
  shows "token2id (doc2bow_update d doc)
         = token2id d @ zip new [length (token2id d)..<length (token2id d) + length new]"
proof -
  let ?ms = "sort (filter (\<lambda>x. map_of (token2id d) (fst x) = None) (count_tokens doc))"
  have keys: "map fst ?ms = new"
    unfolding new_def by (rule missing_keys)
  have "distinct (map fst ?ms)"
    unfolding keys by (simp add: new_def)
  moreover have "fst ` set ?ms \<inter> fst ` set (token2id d) = {}"
  proof -
    have "fst ` set ?ms = set (map fst ?ms)"
      by simp
    also have "\<dots> = set new"
      unfolding keys ..
    finally show ?thesis
      by (auto simp: new_def)
  qed
  ultimately have "fold (\<lambda>(w, _) t. AList.update w (length t) t) ?ms (token2id d)
        = token2id d @ zip (map fst ?ms) [length (token2id d)..<length (token2id d) + length ?ms]"
    by (rule fold_update_new)
  moreover have "length ?ms = length new"
    using arg_cong [OF keys, of length] by simp
  ultimately show ?thesis
    by (simp add: token2id_doc2bow_update keys)
qed

lemma dense_ids_append:
  assumes "dense_ids t" "distinct new" "set new \<inter> fst ` set t = {}"
  shows "dense_ids (t @ zip new [length t..<length t + length new])"
proof -
  let ?z = "zip new [length t..<length t + length new]"
  have len: "length ?z = length new"
    by simp
  have s: "map snd ?z = [length t..<length t + length new]"
    by (rule map_snd_zip) simp
  have f: "map fst ?z = new"
    by (rule map_fst_zip) simp
  have "map snd (t @ ?z) = [0..<length t] @ [length t..<length t + length new]"
    using assms(1) by (simp only: map_append s dense_ids_def)
  also have "\<dots> = [0..<length t + length new]"
    by (simp only: upt_add_eq_append [OF le0])
  finally have ids: "map snd (t @ ?z) = [0..<length (t @ ?z)]"
    by (simp only: length_append len)
  have "distinct (map fst t @ new)"
    using assms by (auto simp: dense_ids_def)
  then have "distinct (map fst (t @ ?z))"
    by (simp only: map_append f)
  with ids show ?thesis
    unfolding dense_ids_def by (rule conjI)
qed

lemma dense_ids_doc2bow_update:
  assumes "dense_ids (token2id d)"
  shows "dense_ids (token2id (doc2bow_update d doc))"
  unfolding token2id_doc2bow_update_dense [OF assms]
proof (rule dense_ids_append [OF assms])
  show "distinct (sort (remdups (filter (\<lambda>w. w \<notin> fst ` set (token2id d)) doc)))"
    by simp
  show "set (sort (remdups (filter (\<lambda>w. w \<notin> fst ` set (token2id d)) doc)))
        \<inter> fst ` set (token2id d) = {}"
    by auto
qed

lemma keys_doc2bow_update:
  assumes "dense_ids (token2id d)"
  shows "map fst (token2id (doc2bow_update d doc))
         = map fst (token2id d)
           @ sort (remdups (filter (\<lambda>w. w \<notin> set (map fst (token2id d))) doc))"
proof -
  let ?new = "sort (remdups (filter (\<lambda>w. w \<notin> fst ` set (token2id d)) doc))"
  have "map fst (zip ?new [length (token2id d)..<length (token2id d) + length ?new]) = ?new"
    by (rule map_fst_zip) simp
  then show ?thesis
    unfolding token2id_doc2bow_update_dense [OF assms] by simp
qed

lemma dense_ids_zip: "dense_ids t \<Longrightarrow> t = zip (map fst t) [0..<length t]"
  using zip_map_fst_snd [of t] by (simp add: dense_ids_def)


subsection \<open>A batch of documents, without pruning\<close>

lemma fold_doc2bow_update:
  assumes "dense_ids (token2id d)"
  shows "dense_ids (token2id (fold (\<lambda>doc d. doc2bow_update d doc) docs d))
         \<and> map fst (token2id (fold (\<lambda>doc d. doc2bow_update d doc) docs d))
           = fold (\<lambda>doc seen. seen @ sort (remdups (filter (\<lambda>w. w \<notin> set seen) doc)))
               docs (map fst (token2id d))"
  using assms
proof (induction docs arbitrary: d)
  case Nil
  then show ?case by simp
next
  case (Cons doc docs)
  have "dense_ids (token2id (doc2bow_update d doc))"
    using Cons.prems by (rule dense_ids_doc2bow_update)
  from Cons.IH [OF this] show ?case
    by (simp only: fold_simps keys_doc2bow_update [OF Cons.prems])
qed

lemma dense_ids_empty: "dense_ids (token2id empty_dictionary)"
  by (simp add: dense_ids_def empty_dictionary_def)

lemma keys_fold_from_empty:
  "map fst (token2id (fold (\<lambda>doc d. doc2bow_update d doc) docs empty_dictionary)) = id_order docs"
  using fold_doc2bow_update [OF dense_ids_empty, of docs]
  by (simp add: id_order_def empty_dictionary_def)

lemma fold_seen_set:
  "set (fold (\<lambda>doc seen. seen @ sort (remdups (filter (\<lambda>w. w \<notin> set seen) doc))) docs seen)
   = set seen \<union> set (concat docs)"
  by (induction docs arbitrary: seen) auto

lemma fold_seen_distinct:
  "distinct seen \<Longrightarrow>
   distinct (fold (\<lambda>doc seen. seen @ sort (remdups (filter (\<lambda>w. w \<notin> set seen) doc))) docs seen)"
proof (induction docs arbitrary: seen)
  case Nil
  then show ?case by simp
next
  case (Cons doc docs)
  have "distinct (seen @ sort (remdups (filter (\<lambda>w. w \<notin> set seen) doc)))"
    using Cons.prems by auto
  from Cons.IH [OF this] show ?case by simp
qed

lemma set_id_order: "set (id_order docs) = set (concat docs)"
  using fold_seen_set [of docs "[]"] by (simp add: id_order_def)

lemma distinct_id_order: "distinct (id_order docs)"
  using fold_seen_distinct [of "[]" docs] by (simp add: id_order_def)

lemma length_id_order: "length (id_order docs) = length (remdups (concat docs))"
proof -
  have "length (id_order docs) = card (set (id_order docs))"
    using distinct_id_order by (simp add: distinct_card)
  then show ?thesis
    by (simp add: set_id_order length_remdups_card_conv)
qed

subsection \<open>Pruning keeps the ids dense\<close>

lemma map_of_zip_self:
  "length xs = length ys \<Longrightarrow> distinct xs \<Longrightarrow> map (\<lambda>x. the (map_of (zip xs ys) x)) xs = ys"
proof (induction xs ys rule: list_induct2)
  case Nil
  then show ?case by simp
next
  case (Cons x xs y ys)
  then have "map (\<lambda>z. the (map_of (zip (x # xs) (y # ys)) z)) xs
             = map (\<lambda>z. the (map_of (zip xs ys) z)) xs"
    by (intro map_cong) auto
  with Cons show ?case by simp
qed

lemma dense_ids_filter_tokens:
  assumes "dense_ids (token2id d)"
  shows "dense_ids (token2id (filter_tokens d good_ids))"
proof -
  let ?t = "filter (\<lambda>(token, tokenid). tokenid \<in> set good_ids) (token2id d)"
  let ?ids = "map snd ?t"
  let ?idmap = "zip (sort ?ids) [0..<length ?t]"
  have ids: "?ids = filter (\<lambda>i. i \<in> set good_ids) [0..<length (token2id d)]"
  proof -
    have "?ids = filter (\<lambda>i. i \<in> set good_ids) (map snd (token2id d))"
      by (simp add: filter_map comp_def case_prod_unfold)
    with assms show ?thesis
      by (simp add: dense_ids_def)
  qed
  have sorted: "sort ?ids = ?ids"
    unfolding ids by (rule sorted_sort_id) (rule sorted_wrt_filter, simp)
  have dist: "distinct ?ids"
    unfolding ids by simp
  have t2i: "token2id (filter_tokens d good_ids)
             = map (\<lambda>(token, tokenid). (token, the (map_of ?idmap tokenid))) ?t"
    by (simp add: filter_tokens_def compactify_def Let_def)
  have "map snd (token2id (filter_tokens d good_ids))
        = map (\<lambda>i. the (map_of (zip ?ids [0..<length ?t]) i)) ?ids"
    unfolding t2i sorted by (simp add: comp_def case_prod_unfold)
  also have "\<dots> = [0..<length ?t]"
    using dist by (intro map_of_zip_self) simp
  finally have a: "map snd (token2id (filter_tokens d good_ids))
                   = [0..<length (token2id (filter_tokens d good_ids))]"
    by (simp add: t2i)
  have "map fst (token2id (filter_tokens d good_ids)) = map fst ?t"
    unfolding t2i by (simp add: comp_def case_prod_unfold)
  moreover have "distinct (map fst ?t)"
    using assms by (simp add: dense_ids_def distinct_map_filter)
  ultimately show ?thesis
    using a by (simp add: dense_ids_def)
qed

lemma dense_ids_filter_extremes:
  "dense_ids (token2id d) \<Longrightarrow> dense_ids (token2id (filter_extremes d keep_n))"
  by (simp add: filter_extremes_def Let_def dense_ids_filter_tokens)

lemma dense_ids_add_documents:
  "dense_ids (token2id d) \<Longrightarrow> dense_ids (token2id (add_documents prune_at docno docs d))"
proof (induction docs arbitrary: d docno)
  case Nil
  then show ?case by simp
next
  case (Cons doc docs)
  let ?d = "if docno mod 10000 = 0 \<and> length (token2id d) > prune_at
            then filter_extremes d prune_at else d"
  have "dense_ids (token2id ?d)"
    using Cons.prems by (simp add: dense_ids_filter_extremes)
  then have "dense_ids (token2id (doc2bow_update ?d doc))"
    by (rule dense_ids_doc2bow_update)
  from Cons.IH [OF this] show ?case
    by simp
qed

lemma dense_ids_Dictionary: "dense_ids (token2id (Dictionary docs))"
  unfolding Dictionary_def by (rule dense_ids_add_documents [OF dense_ids_empty])


subsection \<open>The dictionary of a batch\<close>

lemma add_documents_fold:
  assumes "\<forall>m < length docs. (docno + m) mod 10000 = 0
             \<longrightarrow> length (token2id (fold (\<lambda>doc d. doc2bow_update d doc) (take m docs) d)) \<le> prune_at"
  shows "add_documents prune_at docno docs d = fold (\<lambda>doc d. doc2bow_update d doc) docs d"
  using assms
proof (induction docs arbitrary: docno d)
  case Nil
  then show ?case by simp
next
  case (Cons doc docs)
  have here: "docno mod 10000 = 0 \<longrightarrow> length (token2id d) \<le> prune_at"
    using Cons.prems [rule_format, of 0] by simp
  have rest: "\<forall>m < length docs. (docno + 1 + m) mod 10000 = 0
                \<longrightarrow> length (token2id (fold (\<lambda>doc d. doc2bow_update d doc) (take m docs)
                                        (doc2bow_update d doc))) \<le> prune_at"
  proof (intro allI impI)
    fix m
    assume "m < length docs" and "(docno + 1 + m) mod 10000 = 0"
    then show "length (token2id (fold (\<lambda>doc d. doc2bow_update d doc) (take m docs)
                                   (doc2bow_update d doc))) \<le> prune_at"
      using Cons.prems [rule_format, of "Suc m"] by simp
  qed
  have "add_documents prune_at docno (doc # docs) d
        = add_documents prune_at (docno + 1) docs (doc2bow_update d doc)"
    using here by auto
  also have "\<dots> = fold (\<lambda>doc d. doc2bow_update d doc) docs (doc2bow_update d doc)"
    by (rule Cons.IH [OF rest])
  finally show ?case by simp
qed

lemma Dictionary_no_pruning:
  assumes "no_pruning docs"
  shows "Dictionary docs = fold (\<lambda>doc d. doc2bow_update d doc) docs empty_dictionary"
  unfolding Dictionary_def
proof (rule add_documents_fold, intro allI impI)
  fix m
  assume m: "m < length docs" and "(0 + m) mod 10000 = 0"
  then have "length (remdups (concat (take m docs))) \<le> 2000000"
    using assms by (simp add: no_pruning_def list_all_iff)
  moreover have "length (token2id (fold (\<lambda>doc d. doc2bow_update d doc) (take m docs) empty_dictionary))
                 = length (id_order (take m docs))"
    using arg_cong [OF keys_fold_from_empty [of "take m docs"], of length] by simp
  ultimately show "length (token2id (fold (\<lambda>doc d. doc2bow_update d doc) (take m docs)
                                       empty_dictionary)) \<le> 2000000"
    by (simp add: length_id_order)
qed

lemma no_pruning_short: "length docs \<le> 10000 \<Longrightarrow> no_pruning docs"
  by (auto simp add: no_pruning_def list_all_iff)

lemma keys_Dictionary: "no_pruning docs \<Longrightarrow> map fst (token2id (Dictionary docs)) = id_order docs"
  by (simp add: Dictionary_no_pruning keys_fold_from_empty)

lemma id_order_example: "id_order [[''b'', ''a''], [''c'', ''a'']] = [''a'', ''b'', ''c'']"
  by code_simp

lemma first_seen_example: "first_seen [[''b'', ''a'']] = [''b'', ''a'']"
  by code_simp

lemma id_order_ba: "id_order [[''b'', ''a'']] = [''a'', ''b'']"
  by code_simp

lemma token2id_Dictionary:
  assumes "no_pruning docs"
  shows "token2id (Dictionary docs) = zip (id_order docs) [0..<length (id_order docs)]"
proof -
  have k: "map fst (token2id (Dictionary docs)) = id_order docs"
    using assms by (rule keys_Dictionary)
  have l: "length (token2id (Dictionary docs)) = length (id_order docs)"
    using arg_cong [OF k, of length] by simp
  have "token2id (Dictionary docs)
        = zip (map fst (token2id (Dictionary docs))) [0..<length (token2id (Dictionary docs))]"
    by (rule dense_ids_zip [OF dense_ids_Dictionary])
  then show ?thesis
    by (simp only: k l)
qed

text \<open>
  C4, as the specification has it, fails on the order: within a document the dictionary
  gives the ids to the new tokens in ascending order of the tokens, not in the order in
  which they occur. In the one document \<^verbatim>\<open>["b", "a"]\<close> the token \<^verbatim>\<open>"b"\<close> is seen first and
  \<^verbatim>\<open>"a"\<close> has the id 0.
\<close>

theorem dictionary_ids_not_first_seen:
  "token2id (Dictionary [[''b'', ''a'']]) = [(''a'', 0), (''b'', 1)]
   \<and> first_seen [[''b'', ''a'']] = [''b'', ''a'']"
proof -
  have "no_pruning [[''b'', ''a'']]"
    by (rule no_pruning_short) simp
  then have "token2id (Dictionary [[''b'', ''a'']])
             = zip (id_order [[''b'', ''a'']]) [0..<length (id_order [[''b'', ''a'']])]"
    by (rule token2id_Dictionary)
  then have "token2id (Dictionary [[''b'', ''a'']]) = [(''a'', 0), (''b'', 1)]"
    unfolding id_order_ba by (simp add: upt_rec del: upt_Suc)
  then show ?thesis
    using first_seen_example by simp
qed

text \<open>
  C4, amended. The ids of the dictionary of every batch are dense: \<open>0, \<dots>, n - 1\<close>, each
  given to one token. On a batch that is not pruned they are given document by document
  over the batch alone, starting from the empty dictionary, and within a document to its
  new tokens in ascending order.
\<close>

theorem dictionary_ids_dense_in_document_order:
  "dense_ids (token2id (Dictionary docs))
   \<and> (no_pruning docs \<longrightarrow>
        token2id (Dictionary docs) = zip (id_order docs) [0..<length (id_order docs)])"
  by (simp add: dense_ids_Dictionary token2id_Dictionary)

theorem dictionary_ids_dense_in_document_order_witness:
  "dense_ids (token2id (Dictionary [[''b'', ''a''], [''c'', ''a'']]))
   \<and> no_pruning [[''b'', ''a''], [''c'', ''a'']]
   \<and> token2id (Dictionary [[''b'', ''a''], [''c'', ''a'']]) = [(''a'', 0), (''b'', 1), (''c'', 2)]"
proof -
  note t = dictionary_ids_dense_in_document_order [of "[[''b'', ''a''], [''c'', ''a'']]"]
  have n: "no_pruning [[''b'', ''a''], [''c'', ''a'']]"
    by (rule no_pruning_short) simp
  have "token2id (Dictionary [[''b'', ''a''], [''c'', ''a'']])
        = zip (id_order [[''b'', ''a''], [''c'', ''a'']])
              [0..<length (id_order [[''b'', ''a''], [''c'', ''a'']])]"
    using t [THEN conjunct2] n by (rule mp)
  then have "token2id (Dictionary [[''b'', ''a''], [''c'', ''a'']])
             = [(''a'', 0), (''b'', 1), (''c'', 2)]"
    unfolding id_order_example by (simp add: upt_rec del: upt_Suc)
  with t [THEN conjunct1] n show ?thesis
    by (intro conjI)
qed


subsection \<open>The bag of words of a document, and its decoding\<close>

lemma dense_ids_lookup:
  assumes "dense_ids t" and "map_of t w = Some i"
  shows "map_of (map (\<lambda>(token, tokenid). (tokenid, token)) t) i = Some w"
proof (rule map_of_is_SomeI)
  have e: "map fst (map (\<lambda>(token, tokenid). (tokenid, token)) t) = map snd t"
    by (simp add: comp_def case_prod_unfold)
  have "distinct (map snd t)"
    using assms(1) by (simp add: dense_ids_def)
  then show "distinct (map fst (map (\<lambda>(token, tokenid). (tokenid, token)) t))"
    by (simp only: e)
  have "(w, i) \<in> set t"
    using assms(2) by (rule map_of_SomeD)
  then show "(i, w) \<in> set (map (\<lambda>(token, tokenid). (tokenid, token)) t)"
    by force
qed

lemma dense_ids_inj:
  assumes "dense_ids t" and "map_of t w = Some i" and "map_of t w' = Some i"
  shows "w = w'"
  using dense_ids_lookup [OF assms(1,2)] dense_ids_lookup [OF assms(1,3)] by simp

lemma bow_fold:
  assumes "dense_ids t"
    and "distinct (map fst counter)"
    and "\<forall>w \<in> fst ` set counter. \<forall>i. map_of t w = Some i \<longrightarrow> i \<notin> fst ` set acc"
  shows "fold (\<lambda>(w, freq) result.
                 (case map_of t w of None \<Rightarrow> result | Some i \<Rightarrow> AList.update i freq result))
           counter acc
         = acc @ concat (map (\<lambda>(w, freq).
                               (case map_of t w of None \<Rightarrow> [] | Some i \<Rightarrow> [(i, freq)])) counter)"
  using assms(2,3)
proof (induction counter arbitrary: acc)
  case Nil
  then show ?case by simp
next
  case (Cons x counter)
  obtain w freq where x: "x = (w, freq)"
    by (cases x)
  show ?case
  proof (cases "map_of t w")
    case None
    have "\<forall>w \<in> fst ` set counter. \<forall>i. map_of t w = Some i \<longrightarrow> i \<notin> fst ` set acc"
      using Cons.prems(2) by simp
    with Cons.IH [of acc] Cons.prems(1) None x show ?thesis
      by simp
  next
    case (Some i)
    have new: "i \<notin> fst ` set acc"
      using Cons.prems(2) Some x by simp
    have rest: "\<forall>w' \<in> fst ` set counter. \<forall>j. map_of t w' = Some j
                  \<longrightarrow> j \<notin> fst ` set (acc @ [(i, freq)])"
    proof (intro ballI allI impI)
      fix w' j
      assume w': "w' \<in> fst ` set counter" and j: "map_of t w' = Some j"
      have "w' \<noteq> w"
        using w' Cons.prems(1) x by auto
      then have "j \<noteq> i"
        using dense_ids_inj [OF assms(1) Some, of w'] j by auto
      moreover have "j \<notin> fst ` set acc"
        using Cons.prems(2) w' j by auto
      ultimately show "j \<notin> fst ` set (acc @ [(i, freq)])"
        by simp
    qed
    have d: "distinct (map fst counter)"
      using Cons.prems(1) by simp
    show ?thesis
      using Cons.IH [OF d rest] Some x by (simp add: update_new [OF new])
  qed
qed

lemma bow_result_dense:
  assumes "dense_ids t" and "distinct (map fst counter)"
  shows "bow_result t counter
         = concat (map (\<lambda>(w, freq).
                          (case map_of t w of None \<Rightarrow> [] | Some i \<Rightarrow> [(i, freq)])) counter)"
  unfolding bow_result_def using bow_fold [OF assms, of "[]"] by simp

lemma decode_append: "decode d (xs @ ys) = decode d xs @ decode d ys"
  by (simp add: decode_def)

lemma decode_Nil: "decode d [] = []"
  by (simp add: decode_def)

lemma decode_entries:
  assumes "dense_ids (token2id d)"
  shows "decode d (concat (map (\<lambda>(w, freq).
                     (case map_of (token2id d) w of None \<Rightarrow> [] | Some i \<Rightarrow> [(i, freq)])) counter))
         = filter (\<lambda>w. w \<in> fst ` set (token2id d))
             (concat (map (\<lambda>(w, freq). replicate freq w) counter))"
proof (induction counter)
  case Nil
  then show ?case by (simp add: decode_Nil)
next
  case (Cons x counter)
  obtain w freq where x: "x = (w, freq)"
    by (cases x)
  show ?case
  proof (cases "map_of (token2id d) w")
    case None
    then have "w \<notin> fst ` set (token2id d)"
      by (simp add: map_of_eq_None_iff)
    with None Cons.IH x show ?thesis
      by (simp add: decode_append decode_Nil)
  next
    case (Some i)
    then have "w \<in> fst ` set (token2id d)"
      by (metis map_of_eq_None_iff option.distinct(1))
    moreover have "decode d ((i, freq) # ys) = replicate freq w @ decode d ys" for ys
      using dense_ids_lookup [OF assms Some] by (simp add: decode_def id2token_def)
    ultimately show ?thesis
      using Some Cons.IH x by (simp add: decode_append)
  qed
qed

lemma decode_mset_cong:
  assumes "mset xs = mset ys"
  shows "mset (decode d xs) = mset (decode d ys)"
proof -
  have "mset (decode d zs)
        = \<Sum>\<^sub># (image_mset (\<lambda>(tokenid, freq).
              mset (case id2token d tokenid of None \<Rightarrow> [] | Some w \<Rightarrow> replicate freq w)) (mset zs))"
    for zs
    by (simp add: decode_def mset_concat comp_def case_prod_unfold flip: sum_mset_sum_list)
  then show ?thesis
    using assms by simp
qed

lemma decode_doc2bow:
  assumes "dense_ids (token2id d)"
  shows "mset (decode d (doc2bow d doc)) = filter_mset (\<lambda>w. w \<in> fst ` set (token2id d)) (mset doc)"
proof -
  have "mset (decode d (doc2bow d doc))
        = mset (decode d (bow_result (token2id d) (count_tokens doc)))"
    unfolding doc2bow_def by (rule decode_mset_cong) simp
  also have "\<dots> = mset (filter (\<lambda>w. w \<in> fst ` set (token2id d))
                        (concat (map (\<lambda>(w, freq). replicate freq w) (count_tokens doc))))"
    by (simp only: bow_result_dense [OF assms count_tokens_distinct] decode_entries [OF assms])
  also have "\<dots> = filter_mset (\<lambda>w. w \<in> fst ` set (token2id d)) (mset doc)"
    by (simp only: mset_filter expand_count_tokens)
  finally show ?thesis .
qed

lemma keys_of_batch:
  assumes "no_pruning docs"
  shows "fst ` set (token2id (Dictionary docs)) = set (concat docs)"
proof -
  have "fst ` set (token2id (Dictionary docs)) = set (map fst (token2id (Dictionary docs)))"
    by simp
  also have "\<dots> = set (id_order docs)"
    by (simp only: keys_Dictionary [OF assms])
  finally show ?thesis
    by (simp only: set_id_order)
qed

lemma decode_doc2bow_Dictionary:
  assumes "no_pruning docs" and "doc \<in> set docs"
  shows "mset (decode (Dictionary docs) (doc2bow (Dictionary docs) doc)) = mset doc"
proof -
  have "\<forall>w \<in># mset doc. w \<in> fst ` set (token2id (Dictionary docs))"
    using assms(2) by (auto simp add: keys_of_batch [OF assms(1)])
  then show ?thesis
    unfolding decode_doc2bow [OF dense_ids_Dictionary]
    by (simp add: filter_mset_eq_conv)
qed


subsection \<open>A batch that is pruned\<close>

lemma length_big_doc: "length big_doc = 11881376"
proof -
  have "length ''abcdefghijklmnopqrstuvwxyz'' = 26"
    by simp
  then have "length big_doc = 26 ^ 5"
    by (simp only: big_doc_def length_n_lists)
  then show ?thesis
    by simp
qed

lemma distinct_big_doc: "distinct big_doc"
  unfolding big_doc_def by (rule distinct_n_lists) simp

lemma add_documents_append:
  "add_documents prune_at docno (xs @ ys) d
   = add_documents prune_at (docno + length xs) ys (add_documents prune_at docno xs d)"
  by (induction xs arbitrary: docno d) simp_all

lemma add_documents_empty_docs:
  assumes "0 < docno" and "docno + k \<le> 10000"
  shows "token2id (add_documents prune_at docno (replicate k []) d) = token2id d"
  using assms
proof (induction k arbitrary: docno d)
  case 0
  then show ?case by simp
next
  case (Suc k)
  have "docno < 10000"
    using Suc.prems by arith
  then have "docno mod 10000 = docno"
    by (rule mod_less)
  then have "docno mod 10000 \<noteq> 0"
    using Suc.prems(1) by arith
  then have "add_documents prune_at docno (replicate (Suc k) []) d
             = add_documents prune_at (docno + 1) (replicate k []) (doc2bow_update d [])"
    by simp
  moreover have "token2id (add_documents prune_at (docno + 1) (replicate k []) (doc2bow_update d []))
                 = token2id (doc2bow_update d [])"
    using Suc.prems by (intro Suc.IH) simp_all
  ultimately show ?case
    by (simp add: doc2bow_update_Nil)
qed

lemma length_filter_tokens:
  assumes "dense_ids (token2id d)"
  shows "length (token2id (filter_tokens d good_ids)) \<le> length good_ids"
proof -
  let ?t = "filter (\<lambda>(token, tokenid). tokenid \<in> set good_ids) (token2id d)"
  have "map snd ?t = filter (\<lambda>i. i \<in> set good_ids) (map snd (token2id d))"
    by (simp add: filter_map comp_def case_prod_unfold)
  moreover have "distinct (map snd (token2id d))"
    using assms by (simp add: dense_ids_def)
  ultimately have "distinct (map snd ?t)" and "set (map snd ?t) \<subseteq> set good_ids"
    by auto
  then have "length (map snd ?t) \<le> card (set good_ids)"
    by (metis card_mono distinct_card List.finite_set)
  also have "\<dots> \<le> length good_ids"
    by (rule card_length)
  finally show ?thesis
    by (simp add: filter_tokens_def compactify_def Let_def)
qed

lemma length_filter_extremes:
  assumes "dense_ids (token2id d)"
  shows "length (token2id (filter_extremes d keep_n)) \<le> keep_n"
proof -
  obtain good_ids where "filter_extremes d keep_n = filter_tokens d (take keep_n good_ids)"
    by (simp add: filter_extremes_def Let_def)
  moreover have "length (token2id (filter_tokens d (take keep_n good_ids)))
                 \<le> length (take keep_n good_ids)"
    using assms by (rule length_filter_tokens)
  moreover have "length (take keep_n good_ids) \<le> keep_n"
    by simp
  ultimately show ?thesis
    by simp
qed

lemma pruned_batch_length:
  assumes "distinct doc" and "prune_at < length doc"
  shows "length (token2id (add_documents prune_at 0 (doc # replicate 9999 [] @ [[]])
                             empty_dictionary)) \<le> prune_at"
proof -
  let ?d1 = "doc2bow_update empty_dictionary doc"
  let ?d2 = "add_documents prune_at 1 (replicate 9999 []) ?d1"
  have dense1: "dense_ids (token2id ?d1)"
    by (rule dense_ids_doc2bow_update [OF dense_ids_empty])
  have dense2: "dense_ids (token2id ?d2)"
    by (rule dense_ids_add_documents [OF dense1])
  have "map fst (token2id ?d1) = sort (remdups doc)"
    using keys_doc2bow_update [OF dense_ids_empty, of doc] by (simp add: empty_dictionary_def)
  then have "length (map fst (token2id ?d1)) = length doc"
    using assms(1) by simp
  then have len1: "length (token2id ?d1) = length doc"
    by simp
  have same: "token2id ?d2 = token2id ?d1"
    by (rule add_documents_empty_docs) simp_all
  have big: "prune_at < length (token2id ?d2)"
    using assms(2) by (simp only: same len1)
  have "add_documents prune_at 0 (doc # replicate 9999 [] @ [[]]) empty_dictionary
        = add_documents prune_at 1 (replicate 9999 [] @ [[]]) ?d1"
    by (simp add: empty_dictionary_def)
  also have "\<dots> = add_documents prune_at (1 + length (replicate 9999 ([] :: string list))) [[]] ?d2"
    by (rule add_documents_append)
  also have "\<dots> = add_documents prune_at 10000 [[]] ?d2"
    by simp
  also have "\<dots> = doc2bow_update (filter_extremes ?d2 prune_at) []"
    using big by simp
  finally have "token2id (add_documents prune_at 0 (doc # replicate 9999 [] @ [[]]) empty_dictionary)
                = token2id (filter_extremes ?d2 prune_at)"
    by (simp only: doc2bow_update_Nil)
  then show ?thesis
    using length_filter_extremes [OF dense2, of prune_at] by simp
qed

lemma length_Dictionary_big_batch: "length (token2id (Dictionary big_batch)) \<le> 2000000"
  unfolding Dictionary_def big_batch_def
  by (rule pruned_batch_length) (simp_all add: distinct_big_doc length_big_doc)

lemma token2id_small_batch:
  "token2id (Dictionary small_batch) = [(''a'', 0), (''b'', 1), (''c'', 2)]"
proof -
  have "no_pruning small_batch"
    by (rule no_pruning_short) (simp add: small_batch_def)
  then have "token2id (Dictionary small_batch)
             = zip (id_order small_batch) [0..<length (id_order small_batch)]"
    by (rule token2id_Dictionary)
  moreover have "id_order small_batch = [''a'', ''b'', ''c'']"
    by code_simp
  ultimately show ?thesis
    by (simp add: upt_rec del: upt_Suc)
qed

lemma doc2bow_small_batch:
  "doc2bow (Dictionary small_batch) [''b'', ''a'', ''b''] = [(0, 1), (1, 2)]"
proof -
  have "sort (bow_result [(''a'', 0), (''b'', 1), (''c'', 2)] (count_tokens [''b'', ''a'', ''b'']))
        = [(0, 1), (1, 2)]"
    by code_simp
  then show ?thesis
    by (simp only: doc2bow_def token2id_small_batch)
qed

lemma decode_small_batch:
  "decode (Dictionary small_batch) [(0, 1), (1, 2)] = [''a'', ''b'', ''b'']"
  by (simp add: decode_def id2token_def token2id_small_batch numeral_2_eq_2)

text \<open>
  C5, as the specification has it, fails on a batch that the dictionary prunes. The first
  document holds the \<open>26\<^sup>5\<close> words of five letters, each once, and 10000 empty documents
  follow it: at document number 10000 the dictionary holds more than 2000000 tokens and
  keeps 2000000 of them, so the bag of words of the first document has lost tokens.
\<close>

theorem round_trip_fails_after_pruning:
  "big_doc \<in> set big_batch
   \<and> mset (decode (Dictionary big_batch) (doc2bow (Dictionary big_batch) big_doc))
       \<noteq> mset big_doc"
proof
  show "big_doc \<in> set big_batch"
    by (simp add: big_batch_def)
  show "mset (decode (Dictionary big_batch) (doc2bow (Dictionary big_batch) big_doc))
        \<noteq> mset big_doc"
  proof
    assume "mset (decode (Dictionary big_batch) (doc2bow (Dictionary big_batch) big_doc))
            = mset big_doc"
    then have "filter_mset (\<lambda>w. w \<in> fst ` set (token2id (Dictionary big_batch))) (mset big_doc)
               = mset big_doc"
      by (simp only: decode_doc2bow [OF dense_ids_Dictionary])
    then have "set big_doc \<subseteq> fst ` set (token2id (Dictionary big_batch))"
      by (auto simp add: filter_mset_eq_conv)
    then have "card (set big_doc) \<le> card (fst ` set (token2id (Dictionary big_batch)))"
      by (intro card_mono) simp_all
    also have "\<dots> \<le> card (set (token2id (Dictionary big_batch)))"
      by (rule card_image_le) simp
    also have "\<dots> \<le> length (token2id (Dictionary big_batch))"
      by (rule card_length)
    also have "\<dots> \<le> 2000000"
      by (rule length_Dictionary_big_batch)
    finally show False
      by (simp add: distinct_card [OF distinct_big_doc] length_big_doc)
  qed
qed

text \<open>
  C5, amended. Decoding the bag of words of a document through the dictionary gives the
  tokens of the document that the dictionary knows, each as often as the document has it.
  On a batch that is not pruned, for a document of the batch, these are all its tokens.
\<close>

theorem bow_decode_round_trip:
  "mset (decode (Dictionary docs) (doc2bow (Dictionary docs) doc))
   = filter_mset (\<lambda>w. w \<in> fst ` set (token2id (Dictionary docs))) (mset doc)
   \<and> (no_pruning docs \<longrightarrow> doc \<in> set docs \<longrightarrow>
        mset (decode (Dictionary docs) (doc2bow (Dictionary docs) doc)) = mset doc)"
proof (intro conjI impI)
  show "mset (decode (Dictionary docs) (doc2bow (Dictionary docs) doc))
        = filter_mset (\<lambda>w. w \<in> fst ` set (token2id (Dictionary docs))) (mset doc)"
    by (rule decode_doc2bow [OF dense_ids_Dictionary])
  assume "no_pruning docs" and "doc \<in> set docs"
  then show "mset (decode (Dictionary docs) (doc2bow (Dictionary docs) doc)) = mset doc"
    by (rule decode_doc2bow_Dictionary)
qed

theorem bow_decode_round_trip_witness:
  "no_pruning small_batch
   \<and> [''b'', ''a'', ''b''] \<in> set small_batch
   \<and> doc2bow (Dictionary small_batch) [''b'', ''a'', ''b''] = [(0, 1), (1, 2)]
   \<and> decode (Dictionary small_batch) [(0, 1), (1, 2)] = [''a'', ''b'', ''b'']
   \<and> mset (decode (Dictionary small_batch) (doc2bow (Dictionary small_batch) [''b'', ''a'', ''b'']))
     = mset [''b'', ''a'', ''b'']"
proof -
  note t = bow_decode_round_trip [of small_batch "[''b'', ''a'', ''b'']"]
  have n: "no_pruning small_batch"
    by (rule no_pruning_short) (simp add: small_batch_def)
  have m: "[''b'', ''a'', ''b''] \<in> set small_batch"
    by (simp add: small_batch_def)
  have "mset (decode (Dictionary small_batch) (doc2bow (Dictionary small_batch) [''b'', ''a'', ''b'']))
        = mset [''b'', ''a'', ''b'']"
    using t [THEN conjunct2, rule_format, OF n m] .
  with n m doc2bow_small_batch decode_small_batch show ?thesis
    by (intro conjI)
qed


section \<open>Facts about preprocessing and the page\<close>

text \<open>
  C3. \<^verbatim>\<open>preprocess_text\<close> is a function of the text (and of the tokenizer and the stopword
  list, which do not change): every token it returns is made of letters only, with at
  least one, and is not a stopword; and the empty string gives the empty token sequence,
  since NLTK's tokenizer finds no token in the empty string.
\<close>

theorem preprocess_text_tokens:
  "(\<forall>w \<in> set (preprocess_text word_tokenize stopwords_english text).
      str_isalpha w \<and> list_all char_isalpha w \<and> w \<notin> set stopwords_english)
   \<and> (word_tokenize [] = [] \<longrightarrow> preprocess_text word_tokenize stopwords_english [] = [])"
  by (simp add: preprocess_text_def str_isalpha_def str_lower_def)

theorem preprocess_text_tokens_witness:
  "preprocess_text str_split some_stopwords ''India won the cricket final.''
     = [''india'', ''won'', ''cricket'']
   \<and> str_isalpha ''india'' \<and> list_all char_isalpha ''india'' \<and> ''india'' \<notin> set some_stopwords
   \<and> str_split [] = []
   \<and> preprocess_text str_split some_stopwords [] = []"
proof -
  have p: "preprocess_text str_split some_stopwords ''India won the cricket final.''
             = [''india'', ''won'', ''cricket'']"
    by code_simp
  have e: "str_split [] = []"
    by code_simp
  have m: "''india'' \<in> set (preprocess_text str_split some_stopwords ''India won the cricket final.'')"
    unfolding p by simp
  from preprocess_text_tokens [of str_split some_stopwords "''India won the cricket final.''"] m e p
  show ?thesis by blast
qed

text \<open>
  C6. When the search returns no row, the page shows the count 0, the notice that no
  article was found, and the line that no content is available for topic modelling. The
  page does not depend on the fit or on the topic printer: no dictionary, corpus or
  model is built.
\<close>

theorem empty_results_skip_topic_model:
  "search_articles engine query category_filter df = Inr [] \<Longrightarrow>
   search_clicked engine word_tokenize stopwords_english fit print_topics query category_filter df
     = Inr [Heading 0, No_articles_found, No_content]"
  by (simp add: search_clicked_def)

theorem empty_results_skip_topic_model_witness:
  "search_articles re_compile ''zzzznomatch'' ''All'' example_df = Inr []
   \<and> search_clicked re_compile str_split some_stopwords topic_count_fit numbered_topics
         ''zzzznomatch'' ''All'' example_df
       = Inr [Heading 0, No_articles_found, No_content]"
  by (rule conjI [OF example_search_nomatch
        empty_results_skip_topic_model [OF example_search_nomatch]])

text \<open>
  C10. When the search returns at least one row, \<^verbatim>\<open>build_lda_model\<close> is called on the
  token sequences of the rows and the page is what that call gives, also when every token
  sequence is empty (the call then raises \<^verbatim>\<open>ValueError\<close>). The line that no content is
  available is on the page only when no row matched.
\<close>

theorem nonempty_results_invoke_builder:
  "(search_articles engine query category_filter df = Inr results \<and> results \<noteq> [] \<longrightarrow>
      search_clicked engine word_tokenize stopwords_english fit print_topics query category_filter df
        = (case build_lda_model fit
                  (map (preprocess_text word_tokenize stopwords_english) (map content results)) 5 of
             Inl e \<Rightarrow> Inl e
           | Inr (lda_model, dictionary) \<Rightarrow>
               Inr (Heading (length results) # map Result_item results
                    @ display_topics print_topics lda_model 5)))
   \<and> (search_articles engine query category_filter df = Inr results \<and> results \<noteq> []
      \<and> (\<forall>a \<in> set results. preprocess_text word_tokenize stopwords_english (content a) = []) \<longrightarrow>
      search_clicked engine word_tokenize stopwords_english fit print_topics query category_filter df
        = Inl ValueError)
   \<and> (search_clicked engine word_tokenize stopwords_english fit print_topics query category_filter df
        = Inr page \<and> No_content \<in> set page \<longrightarrow>
      search_articles engine query category_filter df = Inr [])"
proof (intro conjI impI)
  assume a: "search_articles engine query category_filter df = Inr results \<and> results \<noteq> []"
  then show "search_clicked engine word_tokenize stopwords_english fit print_topics query category_filter df
        = (case build_lda_model fit
                  (map (preprocess_text word_tokenize stopwords_english) (map content results)) 5 of
             Inl e \<Rightarrow> Inl e
           | Inr (lda_model, dictionary) \<Rightarrow>
               Inr (Heading (length results) # map Result_item results
                    @ display_topics print_topics lda_model 5))"
    by (simp add: search_clicked_def split: sum.splits prod.splits)
next
  assume a: "search_articles engine query category_filter df = Inr results \<and> results \<noteq> []
      \<and> (\<forall>a \<in> set results. preprocess_text word_tokenize stopwords_english (content a) = [])"
  then have "build_lda_model fit
               (map (preprocess_text word_tokenize stopwords_english) (map content results)) 5
             = Inl ValueError"
    by (intro build_lda_model_no_terms) auto
  with a show "search_clicked engine word_tokenize stopwords_english fit print_topics query category_filter df
        = Inl ValueError"
    by (simp add: search_clicked_def)
next
  assume a: "search_clicked engine word_tokenize stopwords_english fit print_topics query category_filter df
        = Inr page \<and> No_content \<in> set page"
  then show "search_articles engine query category_filter df = Inr []"
    by (auto simp: search_clicked_def display_topics_def Let_def
        split: sum.splits prod.splits if_splits)
qed

lemma example_preprocess_article_3:
  "preprocess_text str_split some_stopwords (content article_3) = []"
  by code_simp

theorem nonempty_results_invoke_builder_witness:
  "search_articles re_compile ''hockey'' ''All'' example_df = Inr [article_3]
   \<and> [article_3] \<noteq> []
   \<and> preprocess_text str_split some_stopwords (content article_3) = []
   \<and> search_clicked re_compile str_split some_stopwords topic_count_fit numbered_topics
         ''hockey'' ''All'' example_df
       = Inl ValueError
   \<and> search_clicked re_compile str_split some_stopwords topic_count_fit numbered_topics
         ''zzzznomatch'' ''All'' example_df
       = Inr [Heading 0, No_articles_found, No_content]
   \<and> No_content \<in> set [Heading 0, No_articles_found, No_content]
   \<and> search_articles re_compile ''zzzznomatch'' ''All'' example_df = Inr []"
proof -
  have page: "search_clicked re_compile str_split some_stopwords topic_count_fit numbered_topics
                ''zzzznomatch'' ''All'' example_df
              = Inr [Heading 0, No_articles_found, No_content]"
    by code_simp
  note t = nonempty_results_invoke_builder
             [of re_compile "''hockey''" "''All''" example_df "[article_3]"
                 str_split some_stopwords topic_count_fit numbered_topics]
  have "search_clicked re_compile str_split some_stopwords topic_count_fit numbered_topics
          ''hockey'' ''All'' example_df = Inl ValueError"
    using t [THEN conjunct2, THEN conjunct1] example_search_hockey example_preprocess_article_3
    by simp
  then show ?thesis
    using example_search_hockey example_preprocess_article_3 page example_search_nomatch
    by simp
qed

text \<open>
  C2. The claim: a search never ends in an exception. The code raises in two cases.
  A query that is not a well-formed regular expression, such as \<^verbatim>\<open>(\<close>, raises \<^verbatim>\<open>re.error\<close>
  in \<^verbatim>\<open>search_articles\<close>, whatever the category and the rows are. And when rows match but
  none of them has a token left after preprocessing, \<^verbatim>\<open>LdaModel\<close> raises \<^verbatim>\<open>ValueError\<close>.
\<close>

theorem search_clicked_raises:
  "search_clicked re_compile word_tokenize stopwords_english fit print_topics
      ''('' category_filter df = Inl ReError
   \<and> search_clicked re_compile str_split some_stopwords topic_count_fit numbered_topics
         ''hockey'' ''All'' example_df = Inl ValueError"
proof
  have "str_lower (str_strip ''('') = ''(''"
    by code_simp
  moreover have "re_compile ''('' = Inl ReError"
    by (simp add: re_compile_def)
  ultimately show "search_clicked re_compile word_tokenize stopwords_english fit print_topics
                     ''('' category_filter df = Inl ReError"
    by (simp add: search_clicked_def search_articles_eq)
next
  have "build_lda_model topic_count_fit
          (map (preprocess_text str_split some_stopwords) (map content [article_3])) 5
        = Inl ValueError"
    by (rule build_lda_model_no_terms) (simp add: example_preprocess_article_3)
  then show "search_clicked re_compile str_split some_stopwords topic_count_fit numbered_topics
               ''hockey'' ''All'' example_df = Inl ValueError"
    by (simp add: search_clicked_def example_search_hockey)
qed

end
